theory Spec2Isabelle
  imports Complex_Main "HOL-Library.AList"
begin

section \<open>Subproblem decomposers of \<^verbatim>\<open>hybrid/decomposers.py\<close>\<close>

text \<open>
  The exceptions the decomposers raise, or let through from Python's builtins and from
  networkx, as values. \<open>EndOfStream\<close> is \<^verbatim>\<open>hybrid.exceptions.EndOfStream\<close>;
  \<open>StopIteration\<close> is what the builtin \<^verbatim>\<open>next\<close> raises on an exhausted iterator.
\<close>

datatype error =
    ValueError
  | TypeError
  | IndexError
  | KeyError
  | AttributeError
  | NotImplementedError
  | NetworkXError
  | StopIteration
  | EndOfStream

subsection \<open>Graphs (networkx)\<close>

text \<open>
  An undirected \<^verbatim>\<open>nx.Graph\<close> is its adjacency dictionary: every node with the list of its
  neighbours, both in insertion order. \<open>len(graph)\<close> is the number of nodes,
  \<open>graph[node]\<close> the neighbours of a node (\<open>KeyError\<close> for a node that is absent).
\<close>

type_synonym 'n graph = "('n \<times> 'n list) list"

definition graph_nodes :: "'n graph \<Rightarrow> 'n list" where
  "graph_nodes G = map fst G"

definition neighbors :: "'n graph \<Rightarrow> 'n \<Rightarrow> 'n list" where
  "neighbors G u = (case map_of G u of None \<Rightarrow> [] | Some nb \<Rightarrow> nb)"

definition add_node :: "'n \<Rightarrow> 'n graph \<Rightarrow> 'n graph" where
  "add_node u G = (if u \<in> set (graph_nodes G) then G else G @ [(u, [])])"

definition add_nbr :: "'n \<Rightarrow> 'n \<Rightarrow> 'n graph \<Rightarrow> 'n graph" where
  "add_nbr u v G =
     map (\<lambda>(w, nb). if w = u then (w, if v \<in> set nb then nb else nb @ [v]) else (w, nb)) G"

definition add_edge :: "'n \<Rightarrow> 'n \<Rightarrow> 'n graph \<Rightarrow> 'n graph" where
  "add_edge u v G = add_nbr v u (add_nbr u v (add_node v (add_node u G)))"

definition remove_nodes_from :: "'n set \<Rightarrow> 'n graph \<Rightarrow> 'n graph" where
  "remove_nodes_from ns G =
     map (\<lambda>(u, nb). (u, filter (\<lambda>v. v \<notin> ns) nb)) (filter (\<lambda>(u, nb). u \<notin> ns) G)"

text \<open>Every node a graph mentions, as a key or as a neighbour.\<close>

definition mentioned :: "'n graph \<Rightarrow> 'n set" where
  "mentioned G = set (graph_nodes G) \<union> (\<Union>(u, nb) \<in> set G. set nb)"

text \<open>
  \<^verbatim>\<open>nx.bfs_edges(G, source)\<close>: the queue holds each discovered node with the neighbours of
  it that are still to be looked at; an edge \<open>(parent, child)\<close> is produced the first time
  \<open>child\<close> is seen. The generator fails with \<open>NetworkXError\<close> when the source is not a
  node of the graph.
\<close>

function bfs_loop :: "'n graph \<Rightarrow> 'n set \<Rightarrow> ('n \<times> 'n list) list \<Rightarrow> ('n \<times> 'n) list" where
  "bfs_loop G visited [] = []"
| "bfs_loop G visited ((parent, []) # queue) = bfs_loop G visited queue"
| "bfs_loop G visited ((parent, child # children) # queue) =
     (if child \<in> visited then bfs_loop G visited ((parent, children) # queue)
      else (parent, child) #
           bfs_loop G (insert child visited)
             ((parent, children) # queue @ [(child, neighbors G child)]))"
  by pat_completeness auto

definition queued :: "('n \<times> 'n list) list \<Rightarrow> 'n set" where
  "queued queue = (\<Union>(u, nb) \<in> set queue. set nb)"

definition queue_size :: "('n \<times> 'n list) list \<Rightarrow> nat" where
  "queue_size queue = (\<Sum>(u, nb) \<leftarrow> queue. Suc (length nb))"

lemma finite_mentioned: "finite (mentioned G)"
  by (auto simp: mentioned_def)

lemma finite_queued: "finite (queued queue)"
  by (auto simp: queued_def)

lemma neighbors_mentioned: "set (neighbors G u) \<subseteq> mentioned G"
proof (cases "map_of G u")
  case None
  then show ?thesis by (simp add: neighbors_def)
next
  case (Some nb)
  then have "(u, nb) \<in> set G" by (rule map_of_SomeD)
  then have "set nb \<subseteq> mentioned G" by (auto simp: mentioned_def)
  with Some show ?thesis by (simp add: neighbors_def)
qed

termination bfs_loop
proof (relation "measures
    [\<lambda>(G, visited, queue). card ((mentioned G \<union> queued queue) - visited),
     \<lambda>(G, visited, queue). queue_size queue]", goal_cases)
  case 1
  show ?case by simp
next
  case (2 G visited parent queue)
  have "(mentioned G \<union> queued queue) - visited
          \<subseteq> (mentioned G \<union> queued ((parent, []) # queue)) - visited"
    by (auto simp: queued_def)
  then have "card ((mentioned G \<union> queued queue) - visited)
          \<le> card ((mentioned G \<union> queued ((parent, []) # queue)) - visited)"
    by (intro card_mono) (auto simp: finite_mentioned finite_queued)
  then show ?case by (auto simp: queue_size_def)
next
  case (3 G visited parent child children queue)
  have "(mentioned G \<union> queued ((parent, children) # queue)) - visited
          \<subseteq> (mentioned G \<union> queued ((parent, child # children) # queue)) - visited"
    by (auto simp: queued_def)
  then have "card ((mentioned G \<union> queued ((parent, children) # queue)) - visited)
          \<le> card ((mentioned G \<union> queued ((parent, child # children) # queue)) - visited)"
    by (intro card_mono) (auto simp: finite_mentioned finite_queued)
  then show ?case by (auto simp: queue_size_def)
next
  case (4 G visited parent child children queue)
  let ?old = "(mentioned G \<union> queued ((parent, child # children) # queue)) - visited"
  let ?new = "(mentioned G \<union>
      queued ((parent, children) # queue @ [(child, neighbors G child)])) - insert child visited"
  have "child \<in> ?old" using 4 by (auto simp: queued_def)
  moreover have "child \<notin> ?new" by simp
  moreover have "?new \<subseteq> ?old"
    using neighbors_mentioned [of G child] by (auto simp: queued_def)
  ultimately have "?new \<subset> ?old" by blast
  then have "card ?new < card ?old"
    by (intro psubset_card_mono) (auto simp: finite_mentioned finite_queued)
  then show ?case by simp
qed

definition bfs_edges :: "'n graph \<Rightarrow> 'n \<Rightarrow> error + ('n \<times> 'n) list" where
  "bfs_edges G source =
     (if source \<notin> set (graph_nodes G) then Inl NetworkXError
      else Inr (bfs_loop G {source} [(source, neighbors G source)]))"

subsection \<open>Traversal strategies of \<^verbatim>\<open>EnergyImpactDecomposer\<close>\<close>

text \<open>
  Sizes are counts of variables (\<open>nat\<close>). Energies and the rolling-history fraction
  are Python floats; they are modelled as exact rationals. The ranked variable order
  \<open>ordered_priority\<close> is an \<^verbatim>\<open>OrderedDict\<close> from variable to energy gain: an association
  list, its keys in insertion order; \<open>ordered_priority.get\<close> is \<open>map_of\<close>.
\<close>

type_synonym 'v priority = "('v \<times> rat) list"

text \<open>
  \<^verbatim>\<open>_energy\<close>: the first \<open>size\<close> variables of the order that are not in \<open>visited\<close>.
  The problem and the sample are ignored.
\<close>

definition energy :: "'b \<Rightarrow> 's \<Rightarrow> 'v priority \<Rightarrow> 'v set \<Rightarrow> nat \<Rightarrow> 'v list" where
  "energy bqm sample ordered_priority visited sz =
     take sz (filter (\<lambda>v. v \<notin> visited) (map fst ordered_priority))"

text \<open>
  \<^verbatim>\<open>_bfs_nodes\<close>: the source, then the first \<open>size - 1\<close> nodes that a breadth-first
  search from it discovers. \<open>islice\<close> with a bound of zero never advances the
  generator of \<open>bfs_edges\<close>, so an absent source raises only when \<open>size - 1\<close> is positive.
\<close>

definition bfs_nodes :: "'v graph \<Rightarrow> 'v \<Rightarrow> nat \<Rightarrow> ('v \<Rightarrow> rat option) \<Rightarrow> error + 'v list" where
  "bfs_nodes graph source sz priority =
     (if sz < 1 then Inr []
      else if sz - 1 = 0 then Inr [source]
      else (case bfs_edges graph source of
              Inl e \<Rightarrow> Inl e
            | Inr edges \<Rightarrow> Inr (source # take (sz - 1) (map snd edges))))"

text \<open>
  The queue of \<^verbatim>\<open>_pfs_nodes\<close> is a \<^verbatim>\<open>heapq\<close> of triples
  \<open>(-priority, counter, node)\<close>. The counter is different in every entry, so the
  entries are totally ordered by their first two components and \<open>heappop\<close> returns
  the one that is least in that order. The model keeps the queue sorted:
  \<open>heappush\<close> inserts in place and \<open>heappop\<close> takes the head.
\<close>

type_synonym 'v heap = "(rat \<times> nat \<times> 'v) list"

fun heap_less :: "rat \<times> nat \<times> 'v \<Rightarrow> rat \<times> nat \<times> 'v \<Rightarrow> bool" where
  "heap_less (p, c, u) (q, d, v) = (p < q \<or> (p = q \<and> c < d))"

fun heappush :: "'v heap \<Rightarrow> rat \<times> nat \<times> 'v \<Rightarrow> 'v heap" where
  "heappush [] x = [x]"
| "heappush (y # ys) x = (if heap_less x y then x # y # ys else y # heappush ys x)"

text \<open>
  The state of the search: the queue, the next value of the counter, and the sets
  \<open>visited\<close> and \<open>enqueued\<close>. \<open>push\<close> negates the priority; a node that the ranked
  order does not hold has priority \<open>None\<close>, and negating it is a \<open>TypeError\<close>.
\<close>

definition push :: "'v heap \<times> nat \<Rightarrow> rat option \<Rightarrow> 'v \<Rightarrow> error + 'v heap \<times> nat" where
  "push qc priority node =
     (case priority of
        None \<Rightarrow> Inl TypeError
      | Some p \<Rightarrow> Inr (heappush (fst qc) (- p, snd qc, node), Suc (snd qc)))"

fun push_neighbors ::
  "('v \<Rightarrow> rat option) \<Rightarrow> 'v list \<Rightarrow> 'v heap \<times> nat \<times> 'v set \<Rightarrow> error + 'v heap \<times> nat \<times> 'v set"
where
  "push_neighbors priority [] s = Inr s"
| "push_neighbors priority (neighbor # rest) (queue, counter, enqueued) =
     (if neighbor \<notin> enqueued then
        (case push (queue, counter) (priority neighbor) neighbor of
           Inl e \<Rightarrow> Inl e
         | Inr (queue', counter') \<Rightarrow>
             push_neighbors priority rest (queue', counter', insert neighbor enqueued))
      else push_neighbors priority rest (queue, counter, enqueued))"

lemma length_heappush: "length (heappush q x) = Suc (length q)"
  by (induction q) auto

lemma push_neighbors_measure:
  assumes "push_neighbors priority nbs (queue, counter, enqueued) = Inr (queue', counter', enqueued')"
    and "set nbs \<subseteq> A" and "finite A"
  shows "length queue' + 2 * card (A - enqueued') \<le> length queue + 2 * card (A - enqueued)"
  using assms
proof (induction nbs arbitrary: queue counter enqueued)
  case Nil
  then show ?case by simp
next
  case (Cons nb rest)
  show ?case
  proof (cases "nb \<in> enqueued")
    case True
    with Cons show ?thesis by simp
  next
    case False
    with Cons.prems(1) obtain p where p: "priority nb = Some p"
      by (cases "priority nb") (auto simp: push_def)
    let ?q = "heappush queue (- p, counter, nb)"
    from False p Cons.prems(1)
    have rec: "push_neighbors priority rest (?q, Suc counter, insert nb enqueued)
                 = Inr (queue', counter', enqueued')"
      by (simp add: push_def)
    have "length queue' + 2 * card (A - enqueued')
            \<le> length ?q + 2 * card (A - insert nb enqueued)"
      using Cons.IH [OF rec] Cons.prems by simp
    moreover have "nb \<in> A - enqueued" using False Cons.prems(2) by auto
    then have "card (A - insert nb enqueued) < card (A - enqueued)"
      using \<open>finite A\<close>
      by (intro psubset_card_mono) auto
    ultimately show ?thesis by (simp add: length_heappush)
  qed
qed

text \<open>
  \<^verbatim>\<open>_pfs_nodes\<close>: the loop pops the entry of highest priority, skips a node already
  visited, and otherwise visits it and pushes those of its neighbours that were never
  enqueued. The source itself is pushed without being added to \<open>enqueued\<close>.
\<close>

function pfs_loop ::
  "'v graph \<Rightarrow> ('v \<Rightarrow> rat option) \<Rightarrow> nat \<Rightarrow> 'v heap \<Rightarrow> nat \<Rightarrow> 'v set \<Rightarrow> 'v set \<Rightarrow> error + 'v set"
where
  "pfs_loop graph priority sz queue counter visited enqueued =
     (if queue \<noteq> [] \<and> card visited < sz then
        (let node = snd (snd (hd queue)); queue1 = tl queue in
         if node \<in> visited then
           pfs_loop graph priority sz queue1 counter visited enqueued
         else
           (case map_of graph node of
              None \<Rightarrow> Inl KeyError
            | Some nbs \<Rightarrow>
                (case push_neighbors priority nbs (queue1, counter, enqueued) of
                   Inl e \<Rightarrow> Inl e
                 | Inr (queue2, counter2, enqueued2) \<Rightarrow>
                     pfs_loop graph priority sz queue2 counter2
                       (insert node visited) enqueued2)))
      else Inr visited)"
  by pat_completeness auto

termination pfs_loop
proof (relation "measure (\<lambda>(graph, priority, sz, queue, counter, visited, enqueued).
    length queue + 2 * card (mentioned graph - enqueued))", goal_cases)
  case 1
  show ?case by simp
next
  case (2 graph priority sz queue counter visited enqueued)
  then show ?case by (cases queue) auto
next
  case (3 graph priority sz queue counter visited enqueued node queue1 nbs s queue2 r
          counter2 enqueued2)
  from 3 have "(node, nbs) \<in> set graph" by (auto dest: map_of_SomeD)
  then have sub: "set nbs \<subseteq> mentioned graph" by (auto simp: mentioned_def)
  from 3 have "push_neighbors priority nbs (tl queue, counter, enqueued)
                 = Inr (queue2, counter2, enqueued2)" by simp
  from push_neighbors_measure [OF this sub finite_mentioned]
  have "length queue2 + 2 * card (mentioned graph - enqueued2)
          \<le> length (tl queue) + 2 * card (mentioned graph - enqueued)" .
  moreover from 3 have "queue \<noteq> []" by simp
  ultimately show ?case by (cases queue) auto
qed

declare pfs_loop.simps [simp del]

definition pfs_nodes :: "'v graph \<Rightarrow> 'v \<Rightarrow> nat \<Rightarrow> ('v \<Rightarrow> rat option) \<Rightarrow> error + 'v set" where
  "pfs_nodes graph source sz priority =
     (if sz < 1 then Inr {}
      else (case push ([], 0) (priority source) source of
              Inl e \<Rightarrow> Inl e
            | Inr (queue, counter) \<Rightarrow> pfs_loop graph priority sz queue counter {} {}))"

text \<open>
  \<^verbatim>\<open>_iterative_graph_search\<close>. The loop runs while fewer than \<open>size\<close> variables are
  selected and the graph has nodes; it takes the next variable of the order that is
  neither visited nor selected as the source (the loop ends when the order is
  exhausted), adds the nodes that \<open>method\<close> returns and removes them from the graph.
  The list \<open>nodes\<close> built from the result of \<open>method\<close> is only used as a set
  (\<open>variables.update\<close>, \<open>graph.remove_nodes_from\<close>).
\<close>

fun igs_loop ::
  "('v graph \<Rightarrow> 'v \<Rightarrow> nat \<Rightarrow> ('v \<Rightarrow> rat option) \<Rightarrow> error + 'v set) \<Rightarrow> ('v \<Rightarrow> rat option) \<Rightarrow>
   'v set \<Rightarrow> nat \<Rightarrow> 'v graph \<Rightarrow> 'v set \<Rightarrow> 'v list \<Rightarrow> error + 'v set"
where
  "igs_loop method priority visited sz graph variables [] = Inr variables"
| "igs_loop method priority visited sz graph variables (source # order) =
     (if card variables < sz \<and> length graph \<noteq> 0 then
        (if source \<in> visited \<or> source \<in> variables then
           igs_loop method priority visited sz graph variables order
         else
           (case method graph source (sz - card variables) priority of
              Inl e \<Rightarrow> Inl e
            | Inr nodes \<Rightarrow>
                igs_loop method priority visited sz (remove_nodes_from nodes graph)
                  (variables \<union> nodes) order))
      else Inr variables)"

definition iterative_graph_search ::
  "('b \<Rightarrow> 'v graph) \<Rightarrow> ('v graph \<Rightarrow> 'v \<Rightarrow> nat \<Rightarrow> ('v \<Rightarrow> rat option) \<Rightarrow> error + 'v set) \<Rightarrow>
   'b \<Rightarrow> 's \<Rightarrow> 'v priority \<Rightarrow> 'v set \<Rightarrow> nat \<Rightarrow> error + 'v set"
where
  "iterative_graph_search to_graph method bqm sample ordered_priority visited sz =
     (let graph = remove_nodes_from visited (to_graph bqm)
      in igs_loop method (map_of ordered_priority) visited sz graph {}
           (map fst ordered_priority))"

text \<open>The two graph traversals, as the constructor binds them.\<close>

definition bfs :: "('b \<Rightarrow> 'v graph) \<Rightarrow> 'b \<Rightarrow> 's \<Rightarrow> 'v priority \<Rightarrow> 'v set \<Rightarrow> nat \<Rightarrow> error + 'v set" where
  "bfs to_graph =
     iterative_graph_search to_graph
       (\<lambda>graph source sz priority. map_sum id set (bfs_nodes graph source sz priority))"

definition pfs :: "('b \<Rightarrow> 'v graph) \<Rightarrow> 'b \<Rightarrow> 's \<Rightarrow> 'v priority \<Rightarrow> 'v set \<Rightarrow> nat \<Rightarrow> error + 'v set" where
  "pfs to_graph = iterative_graph_search to_graph pfs_nodes"

subsection \<open>Collaborators and the state\<close>

text \<open>
  The quadratic model (type \<open>'b\<close>), the sample set (\<open>'ss\<close>), a sample (\<open>'s\<close>) and the
  functions of \<^verbatim>\<open>hybrid.utils\<close> are not part of the decomposers; they are parameters:
  \<^item> \<open>bqm_len\<close> is \<^verbatim>\<open>len(bqm)\<close>, the number of variables;
  \<^item> \<open>to_networkx_graph\<close> is \<^verbatim>\<open>bqm.to_networkx_graph()\<close>;
  \<^item> \<open>first_sample\<close> is \<^verbatim>\<open>samples.change_vartype(bqm.vartype).first.sample\<close>;
  \<^item> \<open>flip_energy_gains\<close>, \<open>bqm_induced_by\<close>, \<open>select_random_subgraph\<close> and
    \<open>chimera_tiles\<close> are the functions of these names; \<open>chimera_tiles\<close> returns a
    dictionary from tile position to embedding, here the list of its items.
\<close>

type_synonym 'v embedding = "('v \<times> 'v list) list"

record ('b, 'ss, 's, 'v) utils =
  bqm_len :: "'b \<Rightarrow> nat"
  to_networkx_graph :: "'b \<Rightarrow> 'v graph"
  first_sample :: "'ss \<Rightarrow> 'b \<Rightarrow> 's"
  flip_energy_gains :: "'b \<Rightarrow> 's \<Rightarrow> rat option \<Rightarrow> (rat \<times> 'v) list"
  bqm_induced_by :: "'b \<Rightarrow> 'v set \<Rightarrow> 's \<Rightarrow> error + 'b"
  select_random_subgraph :: "'b \<Rightarrow> nat \<Rightarrow> 'v list"
  chimera_tiles :: "'b \<Rightarrow> nat \<times> nat \<times> nat \<Rightarrow> ((nat \<times> nat) \<times> 'v embedding) list"

text \<open>
  The \<^verbatim>\<open>State\<close> a decomposer is called on. \<open>state_sample\<close> is what the attribute
  \<^verbatim>\<open>state.sample\<close> reads.
\<close>

record ('b, 'ss, 's, 'v) state =
  problem :: 'b
  samples :: 'ss
  state_sample :: "'s option"
  subproblem :: "'b option"
  embedding :: "'v embedding option"

subsection \<open>\<^verbatim>\<open>EnergyImpactDecomposer\<close>\<close>

text \<open>
  The instance: its configuration, the traversal the constructor selected, the variables
  unrolled so far, and the cached ranking with the problem and the sample it was
  computed for.
\<close>

record ('b, 's, 'v) energy_impact_decomposer =
  eid_size :: nat
  min_gain :: "rat option"
  rolling :: bool
  rolling_history :: rat
  silent_rewind :: bool
  traverse :: "'b \<Rightarrow> 's \<Rightarrow> 'v priority \<Rightarrow> 'v set \<Rightarrow> nat \<Rightarrow> error + 'v set"
  unrolled_vars :: "'v set"
  rolling_bqm :: "'b option"
  rolling_sample :: "'s option"
  variable_priority :: "'v priority"
  prev_sample :: "'s option"

text \<open>
  The table \<open>traversers\<close> of the constructor. \<^verbatim>\<open>_energy\<close> returns a list; the
  caller only adds its elements to the set of unrolled variables and passes them on as
  the variables of the subproblem, so the entry of the table yields their set.
\<close>

definition energy_vars :: "'b \<Rightarrow> 's \<Rightarrow> 'v priority \<Rightarrow> 'v set \<Rightarrow> nat \<Rightarrow> error + 'v set" where
  "energy_vars bqm sample ordered_priority visited sz =
     Inr (set (energy bqm sample ordered_priority visited sz))"

definition traversers ::
  "('b \<Rightarrow> 'v graph) \<Rightarrow> string \<Rightarrow> ('b \<Rightarrow> 's \<Rightarrow> 'v priority \<Rightarrow> 'v set \<Rightarrow> nat \<Rightarrow> error + 'v set) option"
where
  "traversers to_graph traversal =
     (if traversal = ''energy'' then Some energy_vars
      else if traversal = ''bfs'' then Some (bfs to_graph)
      else if traversal = ''pfs'' then Some (pfs to_graph)
      else None)"

text \<open>
  \<^verbatim>\<open>__init__\<close> (the constructor of a class \<open>C\<close> is named \<open>C_new\<close> throughout).
  The test of the rolling history is
  \<^verbatim>\<open>rolling and rolling_history < 0.0 or rolling_history > 1.0\<close>, in which \<open>and\<close> binds
  tighter than \<open>or\<close>.
\<close>

definition EnergyImpactDecomposer_new ::
  "('b, 'ss, 's, 'v) utils \<Rightarrow> nat \<Rightarrow> rat option \<Rightarrow> bool \<Rightarrow> rat \<Rightarrow> bool \<Rightarrow> string \<Rightarrow>
   error + ('b, 's, 'v) energy_impact_decomposer"
where
  "EnergyImpactDecomposer_new U sz mgain roll history silent traversal =
     (if (roll \<and> history < 0) \<or> history > 1 then Inl ValueError
      else (case traversers (to_networkx_graph U) traversal of
              None \<Rightarrow> Inl ValueError
            | Some t \<Rightarrow>
                Inr \<lparr> eid_size = sz, min_gain = mgain, rolling = roll,
                      rolling_history = history, silent_rewind = silent, traverse = t,
                      unrolled_vars = {}, rolling_bqm = None, rolling_sample = None,
                      variable_priority = [], prev_sample = None \<rparr>))"

definition rewind_rolling ::
  "('b, 's, 'v) energy_impact_decomposer \<Rightarrow> ('b, 'ss, 's, 'v) state \<Rightarrow>
   ('b, 's, 'v) energy_impact_decomposer"
where
  "rewind_rolling d st =
     d\<lparr> unrolled_vars := {}, rolling_bqm := Some (problem st),
        rolling_sample := state_sample st \<rparr>"

text \<open>
  The ranking is cached as \<^verbatim>\<open>OrderedDict((v, en) for en, v in impact)\<close>: a key that
  comes again keeps its place and takes the later value.
\<close>

definition ordered_dict :: "(rat \<times> 'v) list \<Rightarrow> 'v priority" where
  "ordered_dict impact = foldl (\<lambda>d (en, v). AList.update v en d) [] impact"

text \<open>
  The rewind condition of \<^verbatim>\<open>next\<close>:
  \<^verbatim>\<open>len(self._unrolled_vars) >= self.rolling_history * len(bqm)\<close>.
\<close>

definition rewind_due :: "('b, 's, 'v) energy_impact_decomposer \<Rightarrow> nat \<Rightarrow> bool" where
  "rewind_due d n = (rolling_history d * of_nat n \<le> of_nat (card (unrolled_vars d)))"

text \<open>
  \<^verbatim>\<open>next\<close>, in three steps. The instance is changed in place, also by a call that
  raises, so the model returns the instance after the call together with the outcome.

  First, the caches: when the problem differs from the one of the last call the rolling
  state is rewound; a new sample is remembered; the ranking is computed again when
  either changed or when it is empty.
\<close>

definition update_caches ::
  "('b, 'ss, 's, 'v) utils \<Rightarrow> ('b, 's, 'v) energy_impact_decomposer \<Rightarrow> ('b, 'ss, 's, 'v) state \<Rightarrow>
   ('b, 's, 'v) energy_impact_decomposer"
where
  "update_caches U d st =
     (let bqm = problem st;
          sample = first_sample U (samples st) bqm;
          bqm_changed = (Some bqm \<noteq> rolling_bqm d);
          sample_changed = (Some sample \<noteq> prev_sample d);
          d1 = (if bqm_changed then rewind_rolling d st else d);
          d2 = (if sample_changed then d1\<lparr> prev_sample := Some sample \<rparr> else d1)
      in if bqm_changed \<or> sample_changed \<or> variable_priority d2 = [] then
           d2\<lparr> variable_priority :=
                 ordered_dict (flip_energy_gains U bqm sample (min_gain d2)) \<rparr>
         else d2)"

text \<open>
  Last, the selection: the traversal is called with \<^verbatim>\<open>size=self.size\<close>, its variables
  are added to the unrolled ones when rolling, and the subproblem they induce is stored
  in the state.
\<close>

definition pick_variables ::
  "('b, 'ss, 's, 'v) utils \<Rightarrow> ('b, 's, 'v) energy_impact_decomposer \<Rightarrow> ('b, 'ss, 's, 'v) state \<Rightarrow>
   ('b, 's, 'v) energy_impact_decomposer \<times> (error + ('b, 'ss, 's, 'v) state)"
where
  "pick_variables U d st =
     (let bqm = problem st;
          sample = first_sample U (samples st) bqm
      in (case traverse d bqm sample (variable_priority d) (unrolled_vars d) (eid_size d) of
            Inl e \<Rightarrow> (d, Inl e)
          | Inr next_vars \<Rightarrow>
              (let d' = (if rolling d
                         then d\<lparr> unrolled_vars := unrolled_vars d \<union> next_vars \<rparr>
                         else d)
               in (case bqm_induced_by U bqm next_vars sample of
                     Inl e \<Rightarrow> (d', Inl e)
                   | Inr subbqm \<Rightarrow> (d', Inr (st\<lparr> subproblem := Some subbqm \<rparr>))))))"

text \<open>
  In between, the rolling check: when rolling and the rewind condition holds, the
  rolling state is rewound and, unless the rewind is silent, \<open>EndOfStream\<close> is raised
  after it. The local \<open>size\<close>, the configured size clamped to the number of variables,
  is computed as in the source, which does not use it afterwards.
\<close>

definition EnergyImpactDecomposer_next ::
  "('b, 'ss, 's, 'v) utils \<Rightarrow> ('b, 's, 'v) energy_impact_decomposer \<Rightarrow> ('b, 'ss, 's, 'v) state \<Rightarrow>
   ('b, 's, 'v) energy_impact_decomposer \<times> (error + ('b, 'ss, 's, 'v) state)"
where
  "EnergyImpactDecomposer_next U d st =
     (let bqm = problem st;
          sz = (if eid_size d > bqm_len U bqm then bqm_len U bqm else eid_size d);
          d3 = update_caches U d st
      in if rolling d3 \<and> rewind_due d3 (bqm_len U bqm) then
           (let d4 = rewind_rolling d3 st
            in if \<not> silent_rewind d4 then (d4, Inl EndOfStream)
               else pick_variables U d4 st)
         else pick_variables U d3 st)"

text \<open>
  The instance after successive calls of \<^verbatim>\<open>next\<close>, one for each state of the list
  (\<open>replicate n st\<close> for \<open>n\<close> calls on an unchanged state).
\<close>

fun successive_calls ::
  "('b, 'ss, 's, 'v) utils \<Rightarrow> ('b, 's, 'v) energy_impact_decomposer \<Rightarrow>
   ('b, 'ss, 's, 'v) state list \<Rightarrow> ('b, 's, 'v) energy_impact_decomposer"
where
  "successive_calls U d [] = d"
| "successive_calls U d (st # sts) =
     successive_calls U (fst (EnergyImpactDecomposer_next U d st)) sts"

subsection \<open>\<^verbatim>\<open>RandomSubproblemDecomposer\<close>\<close>

record random_subproblem_decomposer =
  rsd_size :: nat

definition RandomSubproblemDecomposer_new :: "nat \<Rightarrow> random_subproblem_decomposer" where
  "RandomSubproblemDecomposer_new sz = \<lparr> rsd_size = sz \<rparr>"

definition RandomSubproblemDecomposer_next ::
  "('b, 'ss, 's, 'v) utils \<Rightarrow> random_subproblem_decomposer \<Rightarrow> ('b, 'ss, 's, 'v) state \<Rightarrow>
   error + ('b, 'ss, 's, 'v) state"
where
  "RandomSubproblemDecomposer_next U d st =
     (let bqm = problem st
      in if rsd_size d > bqm_len U bqm then Inl ValueError
         else
           (let variables = select_random_subgraph U bqm (rsd_size d);
                sample = first_sample U (samples st) bqm
            in (case bqm_induced_by U bqm (set variables) sample of
                  Inl e \<Rightarrow> Inl e
                | Inr subbqm \<Rightarrow> Inr (st\<lparr> subproblem := Some subbqm \<rparr>))))"

subsection \<open>\<^verbatim>\<open>TilingChimeraDecomposer\<close>\<close>

text \<open>
  \<open>blocks\<close> is an iterator: \<open>Items\<close> over what is left of the dictionary's items, or
  \<^verbatim>\<open>itertools.cycle\<close> of it. A cycle yields the items of its source and saves them; when
  the source is exhausted it yields the saved items, again and again (the third
  component is what is left of the current round, \<open>None\<close> during the first pass).
  A cycle of nothing is exhausted at once.
\<close>

datatype 'a iterator =
    Items "'a list"
  | Cycle "'a list" "'a list" "'a list option"


type_synonym 'v tile = "(nat \<times> nat) \<times> 'v embedding"

record 'v tiling_chimera_decomposer =
  tcd_size :: "nat \<times> nat \<times> nat"
  loop :: bool
  blocks :: "'v tile iterator option"






subsection \<open>\<^verbatim>\<open>RandomConstraintDecomposer\<close>\<close>

text \<open>
  \<open>constraints\<close> is a list of groups of variables; a group is a container (a set, in
  the documentation), here the list of its elements. \<open>constraint_graph\<close> exists only
  once \<open>init\<close> has run. The constructor's \<open>TypeError\<close> for constraints that are not a
  sequence is excluded by the type; what is left is the \<open>ValueError\<close> for a group
  larger than the size.
\<close>

record 'v random_constraint_decomposer =
  rcd_size :: nat
  constraints :: "'v list list"
  constraint_graph :: "nat graph option"

definition RandomConstraintDecomposer_new ::
  "nat \<Rightarrow> 'v list list \<Rightarrow> error + 'v random_constraint_decomposer"
where
  "RandomConstraintDecomposer_new sz consts =
     (if \<exists>const \<in> set consts. length const > sz then Inl ValueError
      else Inr \<lparr> rcd_size = sz, constraints = consts, constraint_graph = None \<rparr>)"

text \<open>
  \<^verbatim>\<open>init\<close>: after the test of the size, an edge \<open>(i, ci)\<close> is added for every pair
  \<open>ci < i\<close> of groups of which the later has a variable that is in the earlier.
\<close>

definition shares :: "'v list \<Rightarrow> 'v list \<Rightarrow> bool" where
  "shares const other = (\<exists>v \<in> set other. v \<in> set const)"

definition link_later :: "'v list list \<Rightarrow> nat \<Rightarrow> nat graph \<Rightarrow> nat graph" where
  "link_later consts ci CG =
     fold (\<lambda>i CG. if shares (consts ! ci) (consts ! i) then add_edge i ci CG else CG)
       [ci + 1 ..< length consts] CG"

definition build_constraint_graph :: "'v list list \<Rightarrow> nat graph" where
  "build_constraint_graph consts = fold (link_later consts) [0 ..< length consts] []"

definition RandomConstraintDecomposer_init ::
  "('b, 'ss, 's, 'v) utils \<Rightarrow> 'v random_constraint_decomposer \<Rightarrow> ('b, 'ss, 's, 'v) state \<Rightarrow>
   error + 'v random_constraint_decomposer"
where
  "RandomConstraintDecomposer_init U d st =
     (if rcd_size d > bqm_len U (problem st) then Inl ValueError
      else Inr (d\<lparr> constraint_graph := Some (build_constraint_graph (constraints d)) \<rparr>))"

text \<open>
  \<^verbatim>\<open>random.choice(range(k))\<close>: an \<open>IndexError\<close> when the range is empty, otherwise any
  of its elements; \<open>rnd\<close> is the draw of the random source.
\<close>

definition random_choice_range :: "nat \<Rightarrow> nat \<Rightarrow> error + nat" where
  "random_choice_range rnd k = (if k = 0 then Inl IndexError else Inr (rnd mod k))"

definition getitem :: "'a list \<Rightarrow> nat \<Rightarrow> error + 'a" where
  "getitem xs i = (if i < length xs then Inr (xs ! i) else Inl IndexError)"

text \<open>
  The loop of \<^verbatim>\<open>next\<close> over the constraints that the breadth-first search reaches. When
  the proposed variables fit, the source calls \<^verbatim>\<open>variables.add(proposed)\<close> with the
  list \<open>proposed\<close>; a list is not hashable and \<open>set.add\<close> raises a \<open>TypeError\<close>.
\<close>

fun add_constraints :: "'v list list \<Rightarrow> nat \<Rightarrow> 'v set \<Rightarrow> nat list \<Rightarrow> error + 'v set" where
  "add_constraints consts sz variables [] = Inr variables"
| "add_constraints consts sz variables (ci # rest) =
     (case getitem consts ci of
        Inl e \<Rightarrow> Inl e
      | Inr const \<Rightarrow>
          (let proposed = filter (\<lambda>v. v \<notin> variables) const
           in if length proposed + card variables \<le> sz then Inl TypeError
              else if card variables = sz then Inr variables
              else add_constraints consts sz variables rest))"

definition RandomConstraintDecomposer_next ::
  "('b, 'ss, 's, 'v) utils \<Rightarrow> nat \<Rightarrow> 'v random_constraint_decomposer \<Rightarrow> ('b, 'ss, 's, 'v) state \<Rightarrow>
   error + ('b, 'ss, 's, 'v) state"
where
  "RandomConstraintDecomposer_next U rnd d st =
     (case constraint_graph d of
        None \<Rightarrow> Inl AttributeError
      | Some CG \<Rightarrow>
          (let sz = rcd_size d; consts = constraints d; bqm = problem st
           in (case random_choice_range rnd (length CG) of
                 Inl e \<Rightarrow> Inl e
               | Inr n \<Rightarrow>
                   (case getitem consts n of
                      Inl e \<Rightarrow> Inl e
                    | Inr const \<Rightarrow>
                        if length const > sz then Inl NotImplementedError
                        else
                          (case bfs_edges CG n of
                             Inl e \<Rightarrow> Inl e
                           | Inr edges \<Rightarrow>
                               (case add_constraints consts sz (set const) (map snd edges) of
                                  Inl e \<Rightarrow> Inl e
                                | Inr variables \<Rightarrow>
                                    (let sample = first_sample U (samples st) bqm
                                     in (case bqm_induced_by U bqm variables sample of
                                           Inl e \<Rightarrow> Inl e
                                         | Inr subbqm \<Rightarrow>
                                             Inr (st\<lparr> subproblem := Some subbqm \<rparr>)))))))))"

subsection \<open>A concrete instance of the collaborators\<close>

text \<open>
  For evaluating the decomposers on concrete inputs: a problem that is just its
  interaction graph over variables \<open>0, 1, 2, \<dots>\<close>, with no sample data. The gain of
  flipping variable \<open>v\<close> is \<open>-v\<close>, so the ranked order is the order of the variables;
  the induced subproblem is the induced subgraph (a \<open>KeyError\<close> for a variable that
  the problem does not have); the random subgraph is the first variables; the tiles
  are the single variables.
\<close>

definition graph_gains :: "nat graph \<Rightarrow> unit \<Rightarrow> rat option \<Rightarrow> (rat \<times> nat) list" where
  "graph_gains bqm sample mgain =
     filter (\<lambda>(en, v). case mgain of None \<Rightarrow> True | Some g \<Rightarrow> g \<le> en)
       (map (\<lambda>v. (- of_nat v, v)) (graph_nodes bqm))"

definition graph_induced_by :: "nat graph \<Rightarrow> nat set \<Rightarrow> unit \<Rightarrow> error + nat graph" where
  "graph_induced_by bqm variables sample =
     (if variables \<subseteq> set (graph_nodes bqm)
      then Inr (map (\<lambda>(u, nb). (u, filter (\<lambda>v. v \<in> variables) nb))
                  (filter (\<lambda>(u, nb). u \<in> variables) bqm))
      else Inl KeyError)"

definition graph_utils :: "(nat graph, unit, unit, nat) utils" where
  "graph_utils =
     \<lparr> bqm_len = length,
       to_networkx_graph = (\<lambda>bqm. bqm),
       first_sample = (\<lambda>samples bqm. ()),
       flip_energy_gains = graph_gains,
       bqm_induced_by = graph_induced_by,
       select_random_subgraph = (\<lambda>bqm k. take k (graph_nodes bqm)),
       chimera_tiles = (\<lambda>bqm sz. map (\<lambda>v. ((v, 0), [(v, [v])])) (graph_nodes bqm)) \<rparr>"

definition graph_state :: "nat graph \<Rightarrow> (nat graph, unit, unit, nat) state" where
  "graph_state bqm =
     \<lparr> problem = bqm, samples = (), state_sample = None, subproblem = None,
       embedding = None \<rparr>"

text \<open>The path \<open>0 - 1 - 2\<close> and the graph of \<open>n\<close> isolated variables.\<close>

definition path3 :: "nat graph" where
  "path3 = [(0, [1]), (1, [0, 2]), (2, [1])]"

definition isolated :: "nat \<Rightarrow> nat graph" where
  "isolated n = map (\<lambda>v. (v, [])) [0 ..< n]"

text \<open>
  Decomposers and states for the examples: an \<^verbatim>\<open>EnergyImpactDecomposer\<close> of size 2
  with a rolling history of zero that does not rewind silently, and a
  \<^verbatim>\<open>RandomConstraintDecomposer\<close> of size 3 over two overlapping groups, before and
  after its setup.
\<close>

definition zero_history_decomposer :: "(nat graph, unit, nat) energy_impact_decomposer" where
  "zero_history_decomposer =
     \<lparr> eid_size = 2, min_gain = None, rolling = True, rolling_history = 0,
       silent_rewind = False, traverse = energy_vars,
       unrolled_vars = {}, rolling_bqm = None, rolling_sample = None,
       variable_priority = [], prev_sample = None \<rparr>"

definition overlapping :: "nat random_constraint_decomposer" where
  "overlapping = \<lparr> rcd_size = 3, constraints = [[0, 1], [1, 2, 3]], constraint_graph = None \<rparr>"

definition overlapping_ready :: "nat random_constraint_decomposer" where
  "overlapping_ready = overlapping\<lparr> constraint_graph := Some [(1, [0]), (0, [1])] \<rparr>"

text \<open>
  A group is linked when it shares a variable with a group at another index; and a
  decomposer over two groups that share nothing.
\<close>

definition linked :: "'v list list \<Rightarrow> nat \<Rightarrow> bool" where
  "linked consts k \<longleftrightarrow>
     k < length consts \<and>
     (\<exists>j < length consts. j \<noteq> k \<and> set (consts ! k) \<inter> set (consts ! j) \<noteq> {})"

definition disjoint_groups :: "nat random_constraint_decomposer" where
  "disjoint_groups = \<lparr> rcd_size = 2, constraints = [[0, 1], [2]], constraint_graph = None \<rparr>"



text \<open>
  A \<^verbatim>\<open>RandomConstraintDecomposer\<close> of size 3 over two groups whose union has three
  variables, before and after its setup.
\<close>

definition chained :: "nat random_constraint_decomposer" where
  "chained = \<lparr> rcd_size = 3, constraints = [[0, 1], [1, 2]], constraint_graph = None \<rparr>"

definition chained_ready :: "nat random_constraint_decomposer" where
  "chained_ready = chained\<lparr> constraint_graph := Some [(1, [0]), (0, [1])] \<rparr>"

text \<open>
  What the energy traversal selects in a call, given the visited set; and the bound on
  the visited set for a rolling history \<open>h\<close>, \<open>n\<close> variables and size \<open>sz\<close>.
\<close>

definition selected ::
  "('b, 'ss, 's, 'v) utils \<Rightarrow> ('b, 's, 'v) energy_impact_decomposer \<Rightarrow> ('b, 'ss, 's, 'v) state \<Rightarrow>
   'v set \<Rightarrow> 'v set" where
  "selected U d st visited =
     set (energy (problem st) (first_sample U (samples st) (problem st))
            (variable_priority d) visited (eid_size d))"



definition third_history_fresh :: "(nat graph, unit, nat) energy_impact_decomposer" where
  "third_history_fresh =
     \<lparr> eid_size = 2, min_gain = None, rolling = True, rolling_history = 1 / 3,
       silent_rewind = False, traverse = energy_vars,
       unrolled_vars = {}, rolling_bqm = None, rolling_sample = None,
       variable_priority = [], prev_sample = None \<rparr>"

definition third_history_decomposer :: "(nat graph, unit, nat) energy_impact_decomposer" where
  "third_history_decomposer =
     fst (EnergyImpactDecomposer_next graph_utils third_history_fresh (graph_state path3))"

definition oversized :: "(nat graph, unit, nat) energy_impact_decomposer" where
  "oversized =
     \<lparr> eid_size = 5, min_gain = None, rolling = False, rolling_history = 1 / 10,
       silent_rewind = True, traverse = energy_vars,
       unrolled_vars = {}, rolling_bqm = None, rolling_sample = None,
       variable_priority = [], prev_sample = None \<rparr>"

definition within_problem ::
  "nat graph \<Rightarrow> unit \<Rightarrow> nat priority \<Rightarrow> nat set \<Rightarrow> nat \<Rightarrow> error + nat set" where
  "within_problem bqm sample ordered_priority visited sz =
     (if sz \<le> length bqm then energy_vars bqm sample ordered_priority visited sz
      else Inl ValueError)"

section \<open>Properties\<close>

subsection \<open>The configuration of an \<^verbatim>\<open>EnergyImpactDecomposer\<close> never changes\<close>

lemma rewind_rolling_fields [simp]:
  "rolling (rewind_rolling d st) = rolling d"
  "rolling_history (rewind_rolling d st) = rolling_history d"
  "silent_rewind (rewind_rolling d st) = silent_rewind d"
  "eid_size (rewind_rolling d st) = eid_size d"
  "min_gain (rewind_rolling d st) = min_gain d"
  "traverse (rewind_rolling d st) = traverse d"
  "variable_priority (rewind_rolling d st) = variable_priority d"
  "prev_sample (rewind_rolling d st) = prev_sample d"
  "unrolled_vars (rewind_rolling d st) = {}"
  "rolling_bqm (rewind_rolling d st) = Some (problem st)"
  by (simp_all add: rewind_rolling_def)

lemma update_caches_config [simp]:
  "rolling (update_caches U d st) = rolling d"
  "rolling_history (update_caches U d st) = rolling_history d"
  "silent_rewind (update_caches U d st) = silent_rewind d"
  "eid_size (update_caches U d st) = eid_size d"
  "min_gain (update_caches U d st) = min_gain d"
  "traverse (update_caches U d st) = traverse d"
  by (simp_all add: update_caches_def Let_def)

lemma pick_variables_config [simp]:
  "rolling (fst (pick_variables U d st)) = rolling d"
  "rolling_history (fst (pick_variables U d st)) = rolling_history d"
  "silent_rewind (fst (pick_variables U d st)) = silent_rewind d"
  "eid_size (fst (pick_variables U d st)) = eid_size d"
  "min_gain (fst (pick_variables U d st)) = min_gain d"
  "traverse (fst (pick_variables U d st)) = traverse d"
  by (simp_all add: pick_variables_def Let_def split: sum.splits)

lemma next_config [simp]:
  "rolling (fst (EnergyImpactDecomposer_next U d st)) = rolling d"
  "rolling_history (fst (EnergyImpactDecomposer_next U d st)) = rolling_history d"
  "silent_rewind (fst (EnergyImpactDecomposer_next U d st)) = silent_rewind d"
  "eid_size (fst (EnergyImpactDecomposer_next U d st)) = eid_size d"
  "min_gain (fst (EnergyImpactDecomposer_next U d st)) = min_gain d"
  "traverse (fst (EnergyImpactDecomposer_next U d st)) = traverse d"
  by (simp_all add: EnergyImpactDecomposer_next_def Let_def)

lemma successive_calls_config [simp]:
  "rolling (successive_calls U d sts) = rolling d"
  "rolling_history (successive_calls U d sts) = rolling_history d"
  "silent_rewind (successive_calls U d sts) = silent_rewind d"
  "eid_size (successive_calls U d sts) = eid_size d"
  "min_gain (successive_calls U d sts) = min_gain d"
  "traverse (successive_calls U d sts) = traverse d"
  by (induction sts arbitrary: d; simp)+

lemma zero_history_call:
  assumes "rolling d" and "rolling_history d = 0" and "\<not> silent_rewind d"
  shows "snd (EnergyImpactDecomposer_next U d st) = Inl EndOfStream"
  using assms
  by (simp add: EnergyImpactDecomposer_next_def Let_def rewind_due_def)

subsection \<open>Validation of the rolling history\<close>




subsection \<open>Capacity errors\<close>

text \<open>
  C7, as amended. When the size exceeds the number of variables of the problem,
  \<^verbatim>\<open>RandomSubproblemDecomposer.next\<close> raises \<open>ValueError\<close>, and so does the setup
  \<^verbatim>\<open>RandomConstraintDecomposer.init\<close>; neither clamps the size.
\<close>

theorem capacity_errors:
  "(rsd_size r > bqm_len U (problem st) \<longrightarrow>
      RandomSubproblemDecomposer_next U r st = Inl ValueError) \<and>
   (rcd_size c > bqm_len U (problem st) \<longrightarrow>
      RandomConstraintDecomposer_init U c st = Inl ValueError)"
  by (simp add: RandomSubproblemDecomposer_next_def RandomConstraintDecomposer_init_def)

theorem capacity_errors_witness:
  "rsd_size (RandomSubproblemDecomposer_new 4) > bqm_len graph_utils (problem (graph_state path3)) \<and>
   RandomSubproblemDecomposer_next graph_utils (RandomSubproblemDecomposer_new 4) (graph_state path3)
     = Inl ValueError \<and>
   rcd_size overlapping > bqm_len graph_utils (problem (graph_state (isolated 2))) \<and>
   RandomConstraintDecomposer_init graph_utils overlapping (graph_state (isolated 2))
     = Inl ValueError"
proof -
  have a: "rsd_size (RandomSubproblemDecomposer_new 4)
             > bqm_len graph_utils (problem (graph_state path3))"
    by (simp add: RandomSubproblemDecomposer_new_def graph_utils_def graph_state_def path3_def)
  have b: "rcd_size overlapping > bqm_len graph_utils (problem (graph_state (isolated 2)))"
    by (simp add: overlapping_def graph_utils_def graph_state_def isolated_def)
  show ?thesis
    using a b
      capacity_errors [where r = "RandomSubproblemDecomposer_new 4" and U = graph_utils
        and st = "graph_state path3"]
      capacity_errors [where c = overlapping and U = graph_utils
        and st = "graph_state (isolated 2)"]
    by simp
qed

text \<open>
  C7, as stated, fails for \<^verbatim>\<open>RandomConstraintDecomposer\<close>: its \<^verbatim>\<open>next\<close> does not compare
  the size with the problem. The decomposer of size 3 is set up on a problem of four
  variables and then called on a problem of two: the call returns a subproblem.
\<close>

theorem constraint_next_without_capacity_check:
  "RandomConstraintDecomposer_init graph_utils overlapping (graph_state (isolated 4))
     = Inr overlapping_ready \<and>
   rcd_size overlapping_ready > bqm_len graph_utils (problem (graph_state (isolated 2))) \<and>
   RandomConstraintDecomposer_next graph_utils 0 overlapping_ready (graph_state (isolated 2))
     = Inr ((graph_state (isolated 2))\<lparr> subproblem := Some (isolated 2) \<rparr>)"
  by code_simp

subsection \<open>A rolling history of zero\<close>

text \<open>
  C10. With rolling enabled, a rolling history of zero and \<open>silent_rewind\<close> false, every
  call of \<^verbatim>\<open>next\<close> raises \<open>EndOfStream\<close>, the first one (\<open>sts = []\<close>) and every one
  after any calls before it, whatever the states; no call returns a subproblem.
\<close>

theorem zero_history_never_selects:
  assumes "rolling d" and "rolling_history d = 0" and "\<not> silent_rewind d"
  shows "snd (EnergyImpactDecomposer_next U (successive_calls U d sts) st) = Inl EndOfStream"
  using assms by (intro zero_history_call) simp_all

theorem zero_history_never_selects_witness:
  "EnergyImpactDecomposer_new graph_utils 2 None True 0 False ''energy''
     = Inr zero_history_decomposer \<and>
   rolling zero_history_decomposer \<and> rolling_history zero_history_decomposer = 0 \<and>
   \<not> silent_rewind zero_history_decomposer \<and>
   snd (EnergyImpactDecomposer_next graph_utils
         (successive_calls graph_utils zero_history_decomposer
            [graph_state path3, graph_state path3])
         (graph_state path3)) = Inl EndOfStream"
  using zero_history_never_selects [where d = zero_history_decomposer and U = graph_utils
      and sts = "[graph_state path3, graph_state path3]" and st = "graph_state path3"]
  by (simp add: zero_history_decomposer_def EnergyImpactDecomposer_new_def traversers_def
        graph_utils_def)

subsection \<open>The constraint graph\<close>

lemma graph_nodes_add_nbr [simp]: "graph_nodes (add_nbr u v G) = graph_nodes G"
  by (induction G) (auto simp: add_nbr_def graph_nodes_def)

lemma set_graph_nodes_add_node [simp]:
  "set (graph_nodes (add_node u G)) = insert u (set (graph_nodes G))"
  by (auto simp: add_node_def graph_nodes_def)

lemma set_graph_nodes_add_edge:
  "set (graph_nodes (add_edge u v G)) = insert u (insert v (set (graph_nodes G)))"
  by (auto simp: add_edge_def)

lemma shares_iff: "shares const other \<longleftrightarrow> set const \<inter> set other \<noteq> {}"
  by (auto simp: shares_def)

lemma link_later_linked:
  assumes "\<forall>k \<in> set (graph_nodes CG). linked consts k" and "ci < length consts"
  shows "\<forall>k \<in> set (graph_nodes (link_later consts ci CG)). linked consts k"
  unfolding link_later_def
proof (rule fold_invariant [where Q = "\<lambda>i. ci < i \<and> i < length consts"], goal_cases)
  case (1 i)
  then show ?case by simp
next
  case 2
  show ?case by (rule assms(1))
next
  case (3 i G)
  show ?case
  proof (cases "shares (consts ! ci) (consts ! i)")
    case False
    with 3 show ?thesis by simp
  next
    case True
    then have ne: "set (consts ! ci) \<inter> set (consts ! i) \<noteq> {}" by (simp add: shares_iff)
    from 3 assms(2) ne have "linked consts ci" unfolding linked_def by auto
    moreover from 3 assms(2) ne have "linked consts i" unfolding linked_def
      by (metis Int_commute nat_neq_iff)
    ultimately show ?thesis using True 3 by (simp add: set_graph_nodes_add_edge)
  qed
qed

lemma build_constraint_graph_linked:
  "\<forall>k \<in> set (graph_nodes (build_constraint_graph consts)). linked consts k"
  unfolding build_constraint_graph_def
proof (rule fold_invariant [where Q = "\<lambda>ci. ci < length consts"], goal_cases)
  case (1 ci)
  then show ?case by simp
next
  case 2
  show ?case by (simp add: graph_nodes_def)
next
  case (3 ci G)
  then show ?case by (intro link_later_linked) 
qed

lemma next_on_empty_graph:
  "constraint_graph d = Some [] \<Longrightarrow>
   RandomConstraintDecomposer_next U rnd d st = Inl IndexError"
  by (simp add: RandomConstraintDecomposer_next_def random_choice_range_def)

text \<open>
  C9. After a setup that succeeded, every node of the constraint graph is the index of
  a group that shares a variable with a group at another index. So when no two groups
  share a variable, the graph is empty, and every call of \<^verbatim>\<open>next\<close> fails in
  \<^verbatim>\<open>random.choice\<close> with an \<open>IndexError\<close>, whatever the draw and the state.
\<close>

theorem constraint_graph_nodes:
  assumes "RandomConstraintDecomposer_init U d st = Inr d'"
  shows "\<exists>CG. constraint_graph d' = Some CG \<and>
           (\<forall>k \<in> set (graph_nodes CG).
              k < length (constraints d) \<and>
              (\<exists>j < length (constraints d). j \<noteq> k \<and>
                 set (constraints d ! k) \<inter> set (constraints d ! j) \<noteq> {})) \<and>
           ((\<forall>i < length (constraints d). \<forall>j < length (constraints d).
               i \<noteq> j \<longrightarrow> set (constraints d ! i) \<inter> set (constraints d ! j) = {}) \<longrightarrow>
            CG = [] \<and>
            (\<forall>rnd st'. RandomConstraintDecomposer_next U rnd d' st' = Inl IndexError))"
proof -
  let ?CG = "build_constraint_graph (constraints d)"
  from assms have d': "d' = d\<lparr> constraint_graph := Some ?CG \<rparr>"
    by (simp add: RandomConstraintDecomposer_init_def split: if_splits)
  have nodes: "\<forall>k \<in> set (graph_nodes ?CG). linked (constraints d) k"
    by (rule build_constraint_graph_linked)
  have empty: "?CG = [] \<and>
      (\<forall>rnd st'. RandomConstraintDecomposer_next U rnd d' st' = Inl IndexError)"
    if disj: "\<forall>i < length (constraints d). \<forall>j < length (constraints d).
               i \<noteq> j \<longrightarrow> set (constraints d ! i) \<inter> set (constraints d ! j) = {}"
  proof -
    from disj have "\<not> linked (constraints d) k" for k unfolding linked_def by blast
    with nodes have "set (graph_nodes ?CG) = {}" by auto
    then have "?CG = []" by (simp add: graph_nodes_def)
    moreover from this d' have "constraint_graph d' = Some []" by simp
    ultimately show ?thesis by (simp add: next_on_empty_graph)
  qed
  have graph: "constraint_graph d' = Some ?CG" using d' by simp
  show ?thesis
  proof (intro exI conjI impI)
    show "constraint_graph d' = Some ?CG" by (rule graph)
    show "\<forall>k \<in> set (graph_nodes ?CG).
              k < length (constraints d) \<and>
              (\<exists>j < length (constraints d). j \<noteq> k \<and>
                 set (constraints d ! k) \<inter> set (constraints d ! j) \<noteq> {})"
      using nodes unfolding linked_def .
  next
    assume disj: "\<forall>i < length (constraints d). \<forall>j < length (constraints d).
               i \<noteq> j \<longrightarrow> set (constraints d ! i) \<inter> set (constraints d ! j) = {}"
    from empty [OF disj] show "?CG = []" by simp
    from empty [OF disj]
    show "\<forall>rnd st'. RandomConstraintDecomposer_next U rnd d' st' = Inl IndexError" by simp
  qed
qed

theorem constraint_graph_nodes_witness:
  "RandomConstraintDecomposer_init graph_utils disjoint_groups (graph_state path3)
     = Inr (disjoint_groups\<lparr> constraint_graph := Some [] \<rparr>) \<and>
   RandomConstraintDecomposer_next graph_utils 0 (disjoint_groups\<lparr> constraint_graph := Some [] \<rparr>)
     (graph_state path3) = Inl IndexError"
proof -
  have init: "RandomConstraintDecomposer_init graph_utils disjoint_groups (graph_state path3)
     = Inr (disjoint_groups\<lparr> constraint_graph := Some [] \<rparr>)"
    by code_simp
  have disj: "\<forall>i < length (constraints disjoint_groups). \<forall>j < length (constraints disjoint_groups).
      i \<noteq> j \<longrightarrow> set (constraints disjoint_groups ! i) \<inter> set (constraints disjoint_groups ! j) = {}"
    by (auto simp: disjoint_groups_def less_Suc_eq numeral_2_eq_2)
  from constraint_graph_nodes [OF init] disj init show ?thesis by auto
qed

subsection \<open>The sequence of tiles\<close>









subsection \<open>The graph traversals\<close>

lemma mentioned_remove_nodes_from:
  "mentioned (remove_nodes_from ns G) \<subseteq> mentioned G - ns"
proof
  fix x assume "x \<in> mentioned (remove_nodes_from ns G)"
  then consider (key) "x \<in> fst ` set (remove_nodes_from ns G)"
    | (nb) u nbs where "(u, nbs) \<in> set (remove_nodes_from ns G)" "x \<in> set nbs"
    by (auto simp: mentioned_def graph_nodes_def)
  then show "x \<in> mentioned G - ns"
  proof cases
    case key
    then obtain nbs where "(x, nbs) \<in> set (remove_nodes_from ns G)" by auto
    then obtain nbs' where "(x, nbs') \<in> set G" "x \<notin> ns"
      by (auto simp: remove_nodes_from_def)
    then show ?thesis by (force simp: mentioned_def graph_nodes_def)
  next
    case nb
    then obtain nbs' where "(u, nbs') \<in> set G" "nbs = filter (\<lambda>v. v \<notin> ns) nbs'"
      by (auto simp: remove_nodes_from_def)
    with nb(2) show ?thesis by (force simp: mentioned_def)
  qed
qed

lemma bfs_loop_children:
  "snd ` set (bfs_loop G visited queue) \<subseteq> queued queue \<union> mentioned G"
proof (induction G visited queue rule: bfs_loop.induct)
  case (1 G visited)
  then show ?case by simp
next
  case (2 G visited parent queue)
  then show ?case by (auto simp: queued_def)
next
  case (3 G visited parent child children queue)
  show ?case
  proof (cases "child \<in> visited")
    case True
    with 3 show ?thesis by (auto simp: queued_def)
  next
    case False
    with 3 have "snd ` set (bfs_loop G (insert child visited)
                   ((parent, children) # queue @ [(child, neighbors G child)]))
                 \<subseteq> queued ((parent, children) # queue @ [(child, neighbors G child)])
                     \<union> mentioned G"
      by simp
    also have "\<dots> \<subseteq> queued ((parent, child # children) # queue) \<union> mentioned G"
      using neighbors_mentioned [of G child] by (auto simp: queued_def)
    finally show ?thesis using False by (auto simp: queued_def)
  qed
qed

lemma bfs_nodes_result:
  assumes "bfs_nodes graph source sz priority = Inr ns"
  shows "length ns \<le> sz \<and> set ns \<subseteq> insert source (mentioned graph)"
proof (cases "sz < 1 \<or> sz - 1 = 0")
  case True
  with assms show ?thesis by (auto simp: bfs_nodes_def split: if_splits)
next
  case False
  with assms obtain edges where e: "bfs_edges graph source = Inr edges"
    and ns: "ns = source # take (sz - 1) (map snd edges)"
    by (auto simp: bfs_nodes_def split: sum.splits)
  from e have "edges = bfs_loop graph {source} [(source, neighbors graph source)]"
    by (auto simp: bfs_edges_def split: if_splits)
  then have "snd ` set edges \<subseteq> queued [(source, neighbors graph source)] \<union> mentioned graph"
    using bfs_loop_children by metis
  then have "snd ` set edges \<subseteq> mentioned graph"
    using neighbors_mentioned [of graph source] by (auto simp: queued_def)
  moreover have "set (take (sz - 1) (map snd edges)) \<subseteq> snd ` set edges"
    using set_take_subset [of "sz - 1" "map snd edges"] by simp
  ultimately have "set (take (sz - 1) (map snd edges)) \<subseteq> mentioned graph" by blast
  moreover have "length ns \<le> sz" using ns False by (auto simp: min_def)
  ultimately show ?thesis using ns by auto
qed

lemma set_heappush: "set (heappush q x) = insert x (set q)"
  by (induction q) auto

lemma push_neighbors_queue:
  assumes "push_neighbors priority nbs (queue, counter, enqueued) = Inr (queue', counter', enqueued')"
  shows "(snd \<circ> snd) ` set queue' \<subseteq> (snd \<circ> snd) ` set queue \<union> set nbs"
  using assms
proof (induction nbs arbitrary: queue counter enqueued)
  case Nil
  then show ?case by simp
next
  case (Cons nb rest)
  show ?case
  proof (cases "nb \<in> enqueued")
    case True
    with Cons.prems
    have "push_neighbors priority rest (queue, counter, enqueued)
            = Inr (queue', counter', enqueued')"
      by simp
    from Cons.IH [OF this] show ?thesis by auto
  next
    case False
    with Cons.prems obtain p where p: "priority nb = Some p"
      by (cases "priority nb") (auto simp: push_def)
    with False Cons.prems
    have "push_neighbors priority rest
            (heappush queue (- p, counter, nb), Suc counter, insert nb enqueued)
          = Inr (queue', counter', enqueued')"
      by (simp add: push_def)
    from Cons.IH [OF this] show ?thesis by (auto simp: set_heappush)
  qed
qed

lemma pfs_loop_result:
  assumes "pfs_loop graph priority sz queue counter visited enqueued = Inr vs"
    and "finite visited" and "card visited \<le> sz"
  shows "finite vs \<and> card vs \<le> sz \<and>
         vs \<subseteq> visited \<union> (snd \<circ> snd) ` set queue \<union> mentioned graph"
  using assms
proof (induction graph priority sz queue counter visited enqueued rule: pfs_loop.induct)
  case (1 graph priority sz queue counter visited enqueued)
  show ?case
  proof (cases "queue \<noteq> [] \<and> card visited < sz")
    case False
    with "1.prems" show ?thesis by (auto simp: pfs_loop.simps [of _ _ _ queue])
  next
    case go: True
    let ?node = "snd (snd (hd queue))"
    from go have hd_in: "?node \<in> (snd \<circ> snd) ` set queue"
      by (cases queue) auto
    from go have tl_sub: "(snd \<circ> snd) ` set (tl queue) \<subseteq> (snd \<circ> snd) ` set queue"
      by (cases queue) auto
    show ?thesis
    proof (cases "?node \<in> visited")
      case True
      with go "1.prems"(1)
      have "pfs_loop graph priority sz (tl queue) counter visited enqueued = Inr vs"
        by (simp add: pfs_loop.simps [of _ _ _ queue] Let_def)
      from "1.IH"(1) [OF go refl refl True this "1.prems"(2,3)]
      have "finite vs \<and> card vs \<le> sz \<and>
            vs \<subseteq> visited \<union> (snd \<circ> snd) ` set (tl queue) \<union> mentioned graph" .
      with tl_sub show ?thesis by blast
    next
      case False
      with go "1.prems"(1) obtain nbs queue2 counter2 enqueued2 where
        nbs: "map_of graph ?node = Some nbs"
        and pn: "push_neighbors priority nbs (tl queue, counter, enqueued)
                   = Inr (queue2, counter2, enqueued2)"
        and rec: "pfs_loop graph priority sz queue2 counter2 (insert ?node visited) enqueued2
                   = Inr vs"
        by (auto simp: pfs_loop.simps [of _ _ _ queue] Let_def split: option.splits sum.splits)
      have fin: "finite (insert ?node visited)" using "1.prems"(2) by simp
      have crd: "card (insert ?node visited) \<le> sz"
        using go False "1.prems"(2) by simp
      from "1.IH"(2) [OF go refl refl False nbs pn refl refl rec fin crd]
      have res: "finite vs \<and> card vs \<le> sz \<and>
                 vs \<subseteq> insert ?node visited \<union> (snd \<circ> snd) ` set queue2 \<union> mentioned graph" .
      from nbs have "(?node, nbs) \<in> set graph" by (rule map_of_SomeD)
      then have "set nbs \<subseteq> mentioned graph" by (auto simp: mentioned_def)
      with push_neighbors_queue [OF pn] tl_sub
      have "(snd \<circ> snd) ` set queue2 \<subseteq> (snd \<circ> snd) ` set queue \<union> mentioned graph"
        by blast
      with res hd_in show ?thesis by blast
    qed
  qed
qed

lemma pfs_nodes_result:
  assumes "pfs_nodes graph source sz priority = Inr ns"
  shows "finite ns \<and> card ns \<le> sz \<and> ns \<subseteq> insert source (mentioned graph)"
proof (cases "sz < 1")
  case True
  with assms show ?thesis by (simp add: pfs_nodes_def)
next
  case False
  with assms obtain p where p: "priority source = Some p"
    and loop: "pfs_loop graph priority sz [(- p, 0, source)] (Suc 0) {} {} = Inr ns"
    by (cases "priority source") (auto simp: pfs_nodes_def push_def)
  from pfs_loop_result [OF loop] show ?thesis by auto
qed


lemma igs_loop_result:
  assumes "igs_loop method priority visited sz graph variables order = Inr vs"
    and bounded: "\<And>g source k p ns. method g source k p = Inr ns \<Longrightarrow>
                   finite ns \<and> card ns \<le> k \<and> ns \<subseteq> insert source (mentioned g)"
    and "finite variables" and "card variables \<le> sz"
    and "variables \<inter> visited = {}" and "mentioned graph \<inter> visited = {}"
  shows "finite vs \<and> card vs \<le> sz \<and> vs \<inter> visited = {}"
  using assms(1,3-)
proof (induction order arbitrary: graph variables)
  case Nil
  then show ?case by simp
next
  case (Cons source order)
  show ?case
  proof (cases "card variables < sz \<and> length graph \<noteq> 0")
    case False
    with Cons.prems show ?thesis by auto
  next
    case go: True
    show ?thesis
    proof (cases "source \<in> visited \<or> source \<in> variables")
      case True
      with go Cons.prems(1)
      have "igs_loop method priority visited sz graph variables order = Inr vs" by auto
      from Cons.IH [OF this Cons.prems(2-)] show ?thesis .
    next
      case False
      with go Cons.prems(1) obtain ns where
        ns: "method graph source (sz - card variables) priority = Inr ns"
        and rec: "igs_loop method priority visited sz (remove_nodes_from ns graph)
                    (variables \<union> ns) order = Inr vs"
        by (auto split: sum.splits)
      from bounded [OF ns] have fin: "finite ns" and crd: "card ns \<le> sz - card variables"
        and sub: "ns \<subseteq> insert source (mentioned graph)" by auto
      have 1: "finite (variables \<union> ns)" using fin Cons.prems(2) by simp
      have "card (variables \<union> ns) \<le> card variables + card ns" by (rule card_Un_le)
      with crd go have 2: "card (variables \<union> ns) \<le> sz" by linarith
      have 3: "(variables \<union> ns) \<inter> visited = {}"
        using sub False Cons.prems(4,5) by auto
      have 4: "mentioned (remove_nodes_from ns graph) \<inter> visited = {}"
        using mentioned_remove_nodes_from [of ns graph] Cons.prems(5) by auto
      from Cons.IH [OF rec 1 2 3 4] show ?thesis .
    qed
  qed
qed

lemma iterative_graph_search_result:
  assumes "iterative_graph_search to_graph method bqm sample ordered_priority visited sz = Inr vs"
    and bounded: "\<And>g source k p ns. method g source k p = Inr ns \<Longrightarrow>
                   finite ns \<and> card ns \<le> k \<and> ns \<subseteq> insert source (mentioned g)"
  shows "finite vs \<and> card vs \<le> sz \<and> vs \<inter> visited = {}"
proof -
  let ?graph = "remove_nodes_from visited (to_graph bqm)"
  from assms(1)
  have loop: "igs_loop method (map_of ordered_priority) visited sz ?graph {}
                (map fst ordered_priority) = Inr vs"
    by (simp add: iterative_graph_search_def Let_def)
  have "mentioned ?graph \<inter> visited = {}"
    using mentioned_remove_nodes_from [of visited "to_graph bqm"] by auto
  with igs_loop_result [OF loop bounded] show ?thesis by simp
qed

text \<open>
  C4. Whatever the interaction graph, the ranked order, the visited set and the size:
  when the \<open>bfs\<close> or the \<open>pfs\<close> traversal returns a set of variables, the set has at
  most \<open>size\<close> elements and none of them is in the visited set.
\<close>

theorem graph_traversals_bounded:
  "(bfs to_graph bqm sample ordered_priority visited sz = Inr vs \<longrightarrow>
      finite vs \<and> card vs \<le> sz \<and> vs \<inter> visited = {}) \<and>
   (pfs to_graph bqm sample ordered_priority visited sz = Inr vs' \<longrightarrow>
      finite vs' \<and> card vs' \<le> sz \<and> vs' \<inter> visited = {})"
proof (intro conjI impI)
  assume b: "bfs to_graph bqm sample ordered_priority visited sz = Inr vs"
  have m: "finite ns \<and> card ns \<le> k \<and> ns \<subseteq> insert source (mentioned g)"
    if "map_sum id set (bfs_nodes g source k p) = Inr ns" for g source k p and ns :: "'a set"
  proof -
    from that obtain xs where xs: "bfs_nodes g source k p = Inr xs" and ns: "ns = set xs"
      by (cases "bfs_nodes g source k p") auto
    from bfs_nodes_result [OF xs] have "length xs \<le> k" and "set xs \<subseteq> insert source (mentioned g)"
      by auto
    moreover have "card (set xs) \<le> length xs" by (rule card_length)
    ultimately show ?thesis using ns by auto
  qed
  from b have "iterative_graph_search to_graph
      (\<lambda>graph source sz priority. map_sum id set (bfs_nodes graph source sz priority))
      bqm sample ordered_priority visited sz = Inr vs"
    by (simp add: bfs_def)
  from iterative_graph_search_result [OF this m]
  show "finite vs" "card vs \<le> sz" "vs \<inter> visited = {}" by auto
next
  assume "pfs to_graph bqm sample ordered_priority visited sz = Inr vs'"
  then have "iterative_graph_search to_graph pfs_nodes bqm sample ordered_priority visited sz
               = Inr vs'"
    by (simp add: pfs_def)
  from iterative_graph_search_result [OF this pfs_nodes_result]
  show "finite vs'" "card vs' \<le> sz" "vs' \<inter> visited = {}" by auto
qed

theorem graph_traversals_bounded_witness:
  "bfs (\<lambda>bqm. bqm) path3 () [(2, 3), (1, 2), (0, 1)] {1} 2 = Inr {2, 0} \<and>
   pfs (\<lambda>bqm. bqm) path3 () [(0, 1), (1, 2), (2, 3)] {} 2 = Inr {0, 1} \<and>
   card {2, 0 :: nat} \<le> 2 \<and> {2, 0 :: nat} \<inter> {1} = {} \<and> card {0, 1 :: nat} \<le> 2"
proof -
  have b: "bfs (\<lambda>bqm. bqm) path3 () [(2, 3), (1, 2), (0, 1)] {1} 2 = Inr {2, 0}"
    by code_simp
  have p: "pfs (\<lambda>bqm. bqm) path3 () [(0, 1), (1, 2), (2, 3)] {} 2 = Inr {0, 1}"
    by code_simp
  from b graph_traversals_bounded [where to_graph = "\<lambda>bqm. bqm" and bqm = path3
      and sample = "()" and ordered_priority = "[(2, 3), (1, 2), (0, 1)]" and visited = "{1}"
      and sz = 2 and vs = "{2, 0}"]
  have "card {2, 0 :: nat} \<le> 2 \<and> {2, 0 :: nat} \<inter> {1} = {}" by blast
  moreover
  from p graph_traversals_bounded [where to_graph = "\<lambda>bqm. bqm" and bqm = path3
      and sample = "()" and ordered_priority = "[(0, 1), (1, 2), (2, 3)]" and visited = "{}"
      and sz = 2 and vs' = "{0, 1}"]
  have "card {0, 1 :: nat} \<le> 2" by blast
  ultimately show ?thesis using b p by blast
qed

subsection \<open>The subsets of \<^verbatim>\<open>RandomConstraintDecomposer\<close>\<close>

text \<open>
  The loop over the constraints never changes \<open>variables\<close>: it raises as soon as a
  group fits. So a call of \<^verbatim>\<open>next\<close> that returns, returns the subproblem of the one
  group it started from.
\<close>

lemma add_constraints_unchanged:
  "add_constraints consts sz variables rest = Inr vs \<Longrightarrow> vs = variables"
  by (induction rest) (auto simp: Let_def split: sum.splits if_splits)

lemma next_returns_one_group:
  assumes "RandomConstraintDecomposer_next U rnd d st = Inr st'"
  shows "\<exists>n < length (constraints d). \<exists>subbqm.
           length (constraints d ! n) \<le> rcd_size d \<and>
           bqm_induced_by U (problem st) (set (constraints d ! n))
             (first_sample U (samples st) (problem st)) = Inr subbqm \<and>
           st' = st\<lparr> subproblem := Some subbqm \<rparr>"
proof -
  from assms obtain n const and edges :: "(nat \<times> nat) list" and vs subbqm where
    "getitem (constraints d) n = Inr const" and len: "\<not> length const > rcd_size d"
    and "add_constraints (constraints d) (rcd_size d) (set const) (map snd edges) = Inr vs"
    and sub: "bqm_induced_by U (problem st) vs (first_sample U (samples st) (problem st))
                = Inr subbqm"
    and st': "st' = st\<lparr> subproblem := Some subbqm \<rparr>"
    by (auto simp: RandomConstraintDecomposer_next_def Let_def
          split: option.splits sum.splits if_splits)
  then have "n < length (constraints d)" and "const = constraints d ! n" and "vs = set const"
    by (auto simp: getitem_def dest: add_constraints_unchanged split: if_splits)
  with len sub st' show ?thesis by auto
qed

text \<open>
  C1, on the code. A decomposer of size 3 over the groups \<open>{0, 1}\<close> and \<open>{1, 2}\<close> is
  constructed and set up on the path of three variables. The union of the two groups
  has three variables and fits; whichever group the random choice starts from, the
  call of \<^verbatim>\<open>next\<close> raises a \<open>TypeError\<close> when it adds the other one.
\<close>

theorem adding_a_group_raises:
  "RandomConstraintDecomposer_new 3 [[0, 1], [1, 2]] = Inr chained \<and>
   RandomConstraintDecomposer_init graph_utils chained (graph_state path3) = Inr chained_ready \<and>
   RandomConstraintDecomposer_next graph_utils 0 chained_ready (graph_state path3)
     = Inl TypeError \<and>
   RandomConstraintDecomposer_next graph_utils 1 chained_ready (graph_state path3)
     = Inl TypeError"
  by code_simp

subsection \<open>Rolling with the energy traversal\<close>

lemma update_caches_rolling [simp]:
  "unrolled_vars (update_caches U d st)
     = (if Some (problem st) \<noteq> rolling_bqm d then {} else unrolled_vars d)"
  "rolling_bqm (update_caches U d st) = Some (problem st)"
  by (auto simp: update_caches_def Let_def)










subsection \<open>A rewind that raises\<close>

text \<open>
  C3, as amended. Let rolling be enabled, \<open>silent_rewind\<close> be false and the rewind
  condition hold in a call of \<^verbatim>\<open>next\<close>. The call raises \<open>EndOfStream\<close>, and the
  instance it leaves has an empty visited set and the problem of the call as its
  cached problem. If the rolling history times the number of variables is positive
  for the state \<open>st'\<close> of the following call, that call does not rewind: it is the
  selection step on an empty visited set. With the energy traversal, it returns the
  subproblem of the selected variables, unless \<open>bqm_induced_by\<close> fails.
\<close>

theorem rewind_raises_then_selects:
  assumes roll: "rolling d" and loud: "\<not> silent_rewind d"
    and due: "rewind_due (update_caches U d st) (bqm_len U (problem st))"
    and pos: "0 < rolling_history d * of_nat (bqm_len U (problem st'))"
  shows "let d1 = fst (EnergyImpactDecomposer_next U d st);
             c = update_caches U d1 st'
         in snd (EnergyImpactDecomposer_next U d st) = Inl EndOfStream \<and>
            unrolled_vars d1 = {} \<and> rolling_bqm d1 = Some (problem st) \<and>
            unrolled_vars c = {} \<and>
            EnergyImpactDecomposer_next U d1 st' = pick_variables U c st' \<and>
            (traverse d = energy_vars \<longrightarrow>
               snd (EnergyImpactDecomposer_next U d1 st') =
                 (case bqm_induced_by U (problem st') (selected U c st' {})
                         (first_sample U (samples st') (problem st')) of
                    Inl e \<Rightarrow> Inl e
                  | Inr subbqm \<Rightarrow> Inr (st'\<lparr> subproblem := Some subbqm \<rparr>)))"
proof -
  let ?d1 = "fst (EnergyImpactDecomposer_next U d st)"
  let ?c = "update_caches U ?d1 st'"
  have first: "EnergyImpactDecomposer_next U d st
                 = (rewind_rolling (update_caches U d st) st, Inl EndOfStream)"
    using roll loud due by (simp add: EnergyImpactDecomposer_next_def Let_def)
  then have d1: "unrolled_vars ?d1 = {}" "rolling_bqm ?d1 = Some (problem st)"
    "rolling_history ?d1 = rolling_history d"
    by simp_all
  have c: "unrolled_vars ?c = {}" using d1(1) by simp
  have "rolling_history ?c = rolling_history d" by simp
  with c pos have "\<not> rewind_due ?c (bqm_len U (problem st'))"
    by (simp add: rewind_due_def)
  then have second: "EnergyImpactDecomposer_next U ?d1 st' = pick_variables U ?c st'"
    by (simp add: EnergyImpactDecomposer_next_def Let_def)
  have "snd (pick_variables U ?c st') =
          (case bqm_induced_by U (problem st') (selected U ?c st' {})
                  (first_sample U (samples st') (problem st')) of
             Inl e \<Rightarrow> Inl e
           | Inr subbqm \<Rightarrow> Inr (st'\<lparr> subproblem := Some subbqm \<rparr>))"
    if "traverse d = energy_vars"
    using that c
    by (simp add: pick_variables_def energy_vars_def selected_def Let_def split: sum.splits)
  with first d1 c second show ?thesis by (simp add: Let_def)
qed

theorem rewind_raises_then_selects_witness:
  "EnergyImpactDecomposer_new graph_utils 2 None True (1 / 3) False ''energy''
     = Inr third_history_fresh \<and>
   rolling third_history_decomposer \<and> \<not> silent_rewind third_history_decomposer \<and>
   rewind_due (update_caches graph_utils third_history_decomposer (graph_state path3))
     (bqm_len graph_utils (problem (graph_state path3))) \<and>
   0 < rolling_history third_history_decomposer *
         of_nat (bqm_len graph_utils (problem (graph_state path3))) \<and>
   snd (EnergyImpactDecomposer_next graph_utils third_history_decomposer (graph_state path3))
     = Inl EndOfStream \<and>
   unrolled_vars (fst (EnergyImpactDecomposer_next graph_utils third_history_decomposer
                         (graph_state path3))) = {} \<and>
   snd (EnergyImpactDecomposer_next graph_utils
          (fst (EnergyImpactDecomposer_next graph_utils third_history_decomposer
                  (graph_state path3)))
          (graph_state path3))
     = Inr ((graph_state path3)\<lparr> subproblem := Some [(0, [1]), (1, [0])] \<rparr>)"
proof -
  let ?d = third_history_decomposer and ?st = "graph_state path3"
  have roll: "rolling ?d" and loud: "\<not> silent_rewind ?d"
    by (simp_all add: third_history_decomposer_def third_history_fresh_def)
  have new: "EnergyImpactDecomposer_new graph_utils 2 None True (1 / 3) False ''energy''
               = Inr third_history_fresh"
    by (simp add: EnergyImpactDecomposer_new_def traversers_def third_history_fresh_def)
  have due: "rewind_due (update_caches graph_utils ?d ?st) (bqm_len graph_utils (problem ?st))"
    by code_simp
  have pos: "0 < rolling_history ?d * of_nat (bqm_len graph_utils (problem ?st))"
    by code_simp
  have after: "snd (pick_variables graph_utils
                      (update_caches graph_utils
                         (fst (EnergyImpactDecomposer_next graph_utils ?d ?st)) ?st) ?st)
                 = Inr (?st\<lparr> subproblem := Some [(0, [1]), (1, [0])] \<rparr>)"
    by code_simp
  from rewind_raises_then_selects [OF roll loud due pos] after roll loud due pos new
  show ?thesis by (simp add: Let_def)
qed

text \<open>
  C3, as stated, fails when the rolling history is zero: the rewind condition holds,
  the call raises \<open>EndOfStream\<close>, and the call that follows raises it again.
\<close>

theorem rewind_repeats:
  "rolling zero_history_decomposer \<and> \<not> silent_rewind zero_history_decomposer \<and>
   rewind_due (update_caches graph_utils zero_history_decomposer (graph_state path3))
     (bqm_len graph_utils (problem (graph_state path3))) \<and>
   snd (EnergyImpactDecomposer_next graph_utils zero_history_decomposer (graph_state path3))
     = Inl EndOfStream \<and>
   snd (EnergyImpactDecomposer_next graph_utils
          (fst (EnergyImpactDecomposer_next graph_utils zero_history_decomposer (graph_state path3)))
          (graph_state path3))
     = Inl EndOfStream"
  by code_simp

subsection \<open>The size given to the traversal\<close>

text \<open>
  C5, on the code. A decomposer of size 5 is called on the path of three variables.
  The call raises no error and returns the whole problem. The traversal, however, is
  called with the configured size 5, not with the size clamped to 3: with a traversal
  that rejects a size above the number of variables in the place of the energy
  traversal, the call raises.
\<close>

theorem traversal_given_configured_size:
  "EnergyImpactDecomposer_new graph_utils 5 None False (1 / 10) True ''energy'' = Inr oversized \<and>
   eid_size oversized > bqm_len graph_utils (problem (graph_state path3)) \<and>
   snd (EnergyImpactDecomposer_next graph_utils oversized (graph_state path3))
     = Inr ((graph_state path3)\<lparr> subproblem := Some path3 \<rparr>) \<and>
   snd (EnergyImpactDecomposer_next graph_utils (oversized\<lparr> traverse := within_problem \<rparr>)
          (graph_state path3))
     = Inl ValueError"
proof (intro conjI)
  show "EnergyImpactDecomposer_new graph_utils 5 None False (1 / 10) True ''energy'' = Inr oversized"
    by (simp add: EnergyImpactDecomposer_new_def traversers_def oversized_def)
qed code_simp+

end
